theory Spec2Isabelle
  imports Main "HOL-Library.AList"
begin

section \<open>Resource identity resolver (getFilepathForLoadable)\<close>

text \<open>
  A descriptor is the object \<^verbatim>\<open>{ type, model }\<close> that \<^verbatim>\<open>getFilepathForLoadable\<close>
  destructures. \<^verbatim>\<open>type\<close> is the kind string of the scene object; \<^verbatim>\<open>model\<close> is a
  string or nullish (\<open>None\<close> stands for both \<^verbatim>\<open>null\<close> and \<^verbatim>\<open>undefined\<close>, which
  the source's \<^verbatim>\<open>!= null\<close> test does not tell apart). A scene object carries the
  further property \<^verbatim>\<open>loaded\<close>, compared with \<^verbatim>\<open>!== true\<close>: \<open>None\<close> is an absent
  flag.
\<close>

record loadable =
  type :: string
  model :: "string option"

record scene_object = loadable +
  loaded :: "bool option"

datatype js_error = TypeError

text \<open>\<^verbatim>\<open>!!model.match(/\//)\<close>: the reference contains a slash.\<close>

definition isUserModel :: "string \<Rightarrow> bool" where
  "isUserModel m = (CHR ''/'' \<in> set m)"

text \<open>
  \<^verbatim>\<open>model.split(/\//)\<close>: the segments between slashes, empty segments kept, so that a
  string with n slashes has n + 1 segments.
\<close>

fun split_slash :: "string \<Rightarrow> string list" where
  "split_slash [] = [[]]"
| "split_slash (c # cs) =
     (if c = CHR ''/'' then [] # split_slash cs
      else (case split_slash cs of
              [] \<Rightarrow> [[c]]
            | p # ps \<Rightarrow> (c # p) # ps))"

text \<open>
  \<^verbatim>\<open>parts[parts.length - 1]\<close> inside a template literal: an out-of-range read of an
  empty array would print as \<^verbatim>\<open>undefined\<close>.
\<close>

definition last_part :: "string list \<Rightarrow> string" where
  "last_part parts = (case rev parts of [] \<Rightarrow> ''undefined'' | f # _ \<Rightarrow> f)"

text \<open>
  The resolver. Calling \<^verbatim>\<open>.match\<close> on a nullish \<^verbatim>\<open>model\<close> throws a TypeError; the
  result \<open>Inr None\<close> is the source's \<^verbatim>\<open>return null\<close>.
\<close>

definition getFilepathForLoadable :: "'a loadable_scheme \<Rightarrow> js_error + string option" where
  "getFilepathForLoadable d =
     (case model d of
        None \<Rightarrow> Inl TypeError
      | Some m \<Rightarrow>
          if isUserModel m then
            (let parts = split_slash m;
                 filename = last_part parts
             in if type d = ''character'' then Inr (Some (''/data/user/characters/'' @ filename))
                else if type d = ''object'' then Inr (Some (''/data/user/objects/'' @ filename))
                else if type d = ''environment'' then Inr (Some (''/data/user/environments/'' @ filename))
                else Inr None)
          else
            (if type d = ''character'' then Inr (Some (''/data/system/dummies/gltf/'' @ m @ ''.glb''))
             else if type d = ''object'' then Inr (Some (''/data/system/objects/'' @ m @ ''.glb''))
             else Inr None))"

section \<open>The attachment cache (the reducer of useAttachmentLoader)\<close>

text \<open>
  \<^verbatim>\<open>action.payload.id\<close> is a string or \<^verbatim>\<open>null\<close> (the resolver's result is passed on
  as it is). Used as a computed property name, \<^verbatim>\<open>null\<close> becomes the key \<^verbatim>\<open>"null"\<close>.
\<close>

type_synonym ident = "string option"

definition key_of :: "ident \<Rightarrow> string" where
  "key_of i = (case i of None \<Rightarrow> ''null'' | Some k \<Rightarrow> k)"

datatype status = NotAsked | Loading | Success | Error

text \<open>
  A JavaScript number as far as the percent computation needs it: an integer, an
  infinity or NaN.
\<close>

datatype jsnum = Num int | PosInfinity | NegInfinity | NaN

record progress_info =
  loaded_bytes :: int
  total_bytes :: int
  percent :: jsnum

text \<open>
  An entry of the cache: the properties that the reducer writes. A property that an
  object literal of the source does not mention is \<open>None\<close> (reading it gives
  \<^verbatim>\<open>undefined\<close>). \<open>elem0\<close> is the property \<^verbatim>\<open>0\<close> that the PROGRESS case creates by
  spreading the one-element array \<^verbatim>\<open>[action.payload.id]\<close>. The decoded value and the
  error object are opaque.
\<close>

record ('v, 'e) entry =
  status :: "status option"
  progress :: "progress_info option"
  value' :: "'v option"
  error :: "'e option"
  elem0 :: "ident option"

definition blank :: "('v, 'e) entry" where
  "blank = \<lparr>status = None, progress = None, value' = None, error = None, elem0 = None\<rparr>"

text \<open>
  The state is a JavaScript object used as a dictionary; an association list keeps its
  insertion order, which \<^verbatim>\<open>Object.entries\<close> enumerates. \<^verbatim>\<open>{...state, [k]: v}\<close> replaces
  the value of an existing key in place and appends a new key: \<open>AList.update\<close>. The keys
  of this program are resource paths and \<^verbatim>\<open>"null"\<close>: none is an array index and none is a
  member of \<^verbatim>\<open>Object.prototype\<close>, so \<^verbatim>\<open>state[k]\<close> is the own property, \<open>map_of\<close>.
\<close>

type_synonym ('v, 'e) attachments = "(string \<times> ('v, 'e) entry) list"

datatype ('v, 'e) action =
    PENDING ident
  | LOAD ident
  | PROGRESS ident int int
  | SUCCESS ident 'v
  | ERROR ident 'e
  | OTHER string

text \<open>
  \<^verbatim>\<open>state[action.payload.id].loading\<close>: no object that the reducer stores has a property
  named \<^verbatim>\<open>loading\<close>, so the read gives \<^verbatim>\<open>undefined\<close>, which is falsy.
\<close>

definition loading :: "('v, 'e) entry \<Rightarrow> bool" where
  "loading e = False"

text \<open>
  \<^verbatim>\<open>Math.floor(loaded / total) * 100\<close> on integer byte counts that a double holds
  exactly: the floor of the quotient is the integer floor division; a zero total gives
  an infinity, or NaN for 0 / 0.
\<close>

definition percent_of :: "int \<Rightarrow> int \<Rightarrow> jsnum" where
  "percent_of l t =
     (if t = 0 then (if l = 0 then NaN else if 0 < l then PosInfinity else NegInfinity)
      else Num ((l div t) * 100))"

text \<open>
  The reducer. The only throwing read is \<^verbatim>\<open>state[id].loading\<close> of the LOAD case when
  the key has no entry.
\<close>

fun reducer :: "('v, 'e) attachments \<Rightarrow> ('v, 'e) action \<Rightarrow> js_error + ('v, 'e) attachments" where
  "reducer state (PENDING i) =
     (case map_of state (key_of i) of
        Some _ \<Rightarrow> Inr state
      | None \<Rightarrow> Inr (AList.update (key_of i) (blank\<lparr>status := Some NotAsked\<rparr>) state))"
| "reducer state (LOAD i) =
     (case map_of state (key_of i) of
        None \<Rightarrow> Inl TypeError
      | Some e \<Rightarrow>
          if loading e then Inr state
          else Inr (AList.update (key_of i) (blank\<lparr>status := Some Loading, progress := None\<rparr>) state))"
| "reducer state (PROGRESS i l t) =
     Inr (AList.update (key_of i)
            (blank\<lparr>elem0 := Some i,
                   progress := Some \<lparr>loaded_bytes = l, total_bytes = t, percent = percent_of l t\<rparr>\<rparr>)
            state)"
| "reducer state (SUCCESS i v) =
     Inr (AList.update (key_of i) (blank\<lparr>status := Some Success, value' := Some v\<rparr>) state)"
| "reducer state (ERROR i x) =
     Inr (AList.update (key_of i) (blank\<lparr>status := Some Error, error := Some x\<rparr>) state)"
| "reducer state (OTHER t) = Inr state"

text \<open>The key an action carries in its payload, if its type is one the reducer knows.\<close>

fun payload_key :: "('v, 'e) action \<Rightarrow> string option" where
  "payload_key (PENDING i) = Some (key_of i)"
| "payload_key (LOAD i) = Some (key_of i)"
| "payload_key (PROGRESS i l t) = Some (key_of i)"
| "payload_key (SUCCESS i v) = Some (key_of i)"
| "payload_key (ERROR i x) = Some (key_of i)"
| "payload_key (OTHER t) = None"

definition status_at :: "('v, 'e) attachments \<Rightarrow> string \<Rightarrow> status option" where
  "status_at state k = (case map_of state k of None \<Rightarrow> None | Some e \<Rightarrow> status e)"

section \<open>The driving loop (the two memo callbacks of useAttachmentLoader)\<close>

record environment =
  file' :: "string option"

record world =
  environment :: environment

text \<open>\<^verbatim>\<open>world.environment.file && ...\<close>: a string is truthy when it is not empty.\<close>

definition truthy :: "string option \<Rightarrow> bool" where
  "truthy s = (case s of None \<Rightarrow> False | Some x \<Rightarrow> x \<noteq> [])"

text \<open>
  \<^verbatim>\<open>sceneObjects\<close> maps object ids to scene objects; \<^verbatim>\<open>Object.values\<close> lists the objects.
  The three filters run in the source's order, then the environment descriptor, an
  object without a \<^verbatim>\<open>loaded\<close> property, is pushed.
\<close>

definition loadables :: "(string \<times> scene_object) list \<Rightarrow> world \<Rightarrow> scene_object list" where
  "loadables sceneObjects w =
     filter (\<lambda>obj. \<not> (type obj = ''object'' \<and> model obj = Some ''box''))
       (filter (\<lambda>obj. loaded obj \<noteq> Some True)
          (filter (\<lambda>obj. model obj \<noteq> None) (map snd sceneObjects)))
     @ (if truthy (file' (environment w))
        then [\<lparr>type = ''environment'', model = file' (environment w), loaded = None\<rparr>]
        else [])"

text \<open>
  The state of the hook as the driving loop sees it: the cache, the keys handed to
  \<^verbatim>\<open>gltfLoader.load\<close> so far (in call order), and the exception that ended the loop, if
  one was thrown.
\<close>

record ('v, 'e) hook =
  attachments :: "('v, 'e) attachments"
  loader_calls :: "string list"
  thrown :: "js_error option"

definition init :: "('v, 'e) hook" where
  "init = \<lparr>attachments = [], loader_calls = [], thrown = None\<rparr>"

text \<open>\<^verbatim>\<open>dispatch(action)\<close>: the reducer's result becomes the state; a throw ends the loop.\<close>

definition dispatch :: "('v, 'e) action \<Rightarrow> ('v, 'e) hook \<Rightarrow> ('v, 'e) hook" where
  "dispatch a h =
     (case thrown h of
        Some _ \<Rightarrow> h
      | None \<Rightarrow>
          (case reducer (attachments h) a of
             Inl x \<Rightarrow> h\<lparr>thrown := Some x\<rparr>
           | Inr s \<Rightarrow> h\<lparr>attachments := s\<rparr>))"

text \<open>
  The first memo callback: one PENDING per loadable, with the resolver's result as id.
\<close>

fun request_each :: "scene_object list \<Rightarrow> ('v, 'e) hook \<Rightarrow> ('v, 'e) hook" where
  "request_each [] h = h"
| "request_each (obj # objs) h =
     (case thrown h of
        Some _ \<Rightarrow> h
      | None \<Rightarrow>
          (case getFilepathForLoadable \<lparr>type = type obj, model = model obj\<rparr> of
             Inl x \<Rightarrow> h\<lparr>thrown := Some x\<rparr>
           | Inr i \<Rightarrow> request_each objs (dispatch (PENDING i) h)))"

definition request_effect :: "(string \<times> scene_object) list \<Rightarrow> world \<Rightarrow> ('v, 'e) hook \<Rightarrow> ('v, 'e) hook" where
  "request_effect sceneObjects w h = request_each (loadables sceneObjects w) h"

text \<open>
  The second memo callback: the keys whose entry has status NotAsked in the current
  cache; for each, one call of the loader, then a LOAD dispatch.
\<close>

definition not_asked_keys :: "('v, 'e) attachments \<Rightarrow> string list" where
  "not_asked_keys state = map fst (filter (\<lambda>kv. status (snd kv) = Some NotAsked) state)"

fun load_each :: "string list \<Rightarrow> ('v, 'e) hook \<Rightarrow> ('v, 'e) hook" where
  "load_each [] h = h"
| "load_each (k # ks) h =
     (case thrown h of
        Some _ \<Rightarrow> h
      | None \<Rightarrow> load_each ks (dispatch (LOAD (Some k)) (h\<lparr>loader_calls := loader_calls h @ [k]\<rparr>)))"

definition load_effect :: "('v, 'e) hook \<Rightarrow> ('v, 'e) hook" where
  "load_effect h = load_each (not_asked_keys (attachments h)) h"

text \<open>
  What can happen to the hook: the scene description changes (first callback), the
  cache changed (second callback), or some action is dispatched (the loader's
  callbacks dispatch SUCCESS, PROGRESS and ERROR; any other dispatch is allowed too).
\<close>

datatype ('v, 'e) event =
    SceneChanged "(string \<times> scene_object) list" world
  | AttachmentsChanged
  | Dispatch "('v, 'e) action"

fun step :: "('v, 'e) hook \<Rightarrow> ('v, 'e) event \<Rightarrow> ('v, 'e) hook" where
  "step h (SceneChanged sceneObjects w) = request_effect sceneObjects w h"
| "step h AttachmentsChanged = load_effect h"
| "step h (Dispatch a) = dispatch a h"

definition run :: "('v, 'e) hook \<Rightarrow> ('v, 'e) event list \<Rightarrow> ('v, 'e) hook" where
  "run h evs = foldl step h evs"

section \<open>Reading the cache (getModelData)\<close>

text \<open>
  \<^verbatim>\<open>getModelData\<close> resolves the key of the object it is given, with no check of its
  own, and reads \<^verbatim>\<open>attachments[key] && attachments[key].value\<close>: \<open>None\<close> when the key
  has no entry or the entry has no value. The scene renders call it for every
  character and object; a throw of the resolver is a throw of \<^verbatim>\<open>getModelData\<close>.
\<close>

definition getModelData :: "('v, 'e) attachments \<Rightarrow> 'a loadable_scheme \<Rightarrow> js_error + 'v option" where
  "getModelData atts sceneObject =
     (case getFilepathForLoadable sceneObject of
        Inl x \<Rightarrow> Inl x
      | Inr key \<Rightarrow>
          (case map_of atts (key_of key) of
             None \<Rightarrow> Inr None
           | Some e \<Rightarrow> Inr (value' e)))"


section \<open>Notions used to state the properties\<close>

text \<open>
  The final path segment in the words of the specification: what follows the last
  slash of the reference (the whole reference when it has no slash). The resolver
  computes it with \<open>split_slash\<close> and \<open>last_part\<close>; the two are shown equal below.
\<close>

definition spec_final_segment :: "string \<Rightarrow> string" where
  "spec_final_segment m = rev (takeWhile (\<lambda>c. c \<noteq> CHR ''/'') (rev m))"

text \<open>The status and the progress record stored for a key (\<open>None\<close>: \<^verbatim>\<open>undefined\<close>).\<close>

definition progress_at :: "('v, 'e) attachments \<Rightarrow> string \<Rightarrow> progress_info option" where
  "progress_at state k = (case map_of state k of None \<Rightarrow> None | Some e \<Rightarrow> progress e)"

text \<open>The object literal pushed for the environment file.\<close>

definition environment_descriptor :: "string \<Rightarrow> scene_object" where
  "environment_descriptor f = \<lparr>type = ''environment'', model = Some f, loaded = None\<rparr>"

text \<open>
  A key counts as asked when it has an entry whose status is not NotAsked. The
  invariant of the driving loop: the cache has no duplicate key, no key was handed to
  the loader twice, and every key handed to the loader is asked.
\<close>

definition asked :: "('v, 'e) attachments \<Rightarrow> string \<Rightarrow> bool" where
  "asked state k = (case map_of state k of None \<Rightarrow> False | Some e \<Rightarrow> status e \<noteq> Some NotAsked)"

definition hook_inv :: "('v, 'e) hook \<Rightarrow> bool" where
  "hook_inv h = (distinct (map fst (attachments h)) \<and> distinct (loader_calls h)
                 \<and> list_all (asked (attachments h)) (loader_calls h))"

section \<open>The resolver's directory table\<close>

lemma split_slash_not_Nil: "split_slash m \<noteq> []"
  by (induction m) (auto split: list.splits)

lemma split_slash_no_slash: "CHR ''/'' \<notin> set m \<Longrightarrow> split_slash m = [m]"
  by (induction m) (auto split: list.splits)

lemma split_slash_append:
  "split_slash (p @ CHR ''/'' # r) = split_slash p @ split_slash r"
proof (induction p)
  case Nil
  show ?case by simp
next
  case (Cons c p)
  obtain y ys where y: "split_slash p = y # ys"
    using split_slash_not_Nil [of p] by (cases "split_slash p") auto
  with Cons show ?case by simp
qed

lemma last_part_last: "parts \<noteq> [] \<Longrightarrow> last_part parts = last parts"
  by (cases parts rule: rev_cases) (auto simp: last_part_def)

lemma spec_final_segment_append:
  assumes "CHR ''/'' \<notin> set s"
  shows "spec_final_segment (p @ CHR ''/'' # s) = s"
proof -
  have "takeWhile (\<lambda>c. c \<noteq> CHR ''/'') (rev s @ CHR ''/'' # rev p) = rev s"
    using assms by (induction s rule: rev_induct) auto
  then show ?thesis by (simp add: spec_final_segment_def)
qed

lemma spec_final_segment_no_slash:
  assumes "CHR ''/'' \<notin> set m"
  shows "spec_final_segment m = m"
proof -
  have "\<forall>c \<in> set (rev m). c \<noteq> CHR ''/''"
    using assms by auto
  then have "takeWhile (\<lambda>c. c \<noteq> CHR ''/'') (rev m) = rev m"
    by (rule takeWhile_eq_all_conv [THEN iffD2])
  then show ?thesis
    unfolding spec_final_segment_def by (simp only: rev_rev_ident)
qed

lemma slash_decomp:
  "CHR ''/'' \<in> set m \<Longrightarrow> \<exists>p s. m = p @ CHR ''/'' # s \<and> CHR ''/'' \<notin> set s"
  by (metis split_list_last)

lemma last_part_split_slash: "last_part (split_slash m) = spec_final_segment m"
proof (cases "CHR ''/'' \<in> set m")
  case True
  then obtain p s where "m = p @ CHR ''/'' # s" "CHR ''/'' \<notin> set s"
    using slash_decomp by blast
  then show ?thesis
    by (simp add: last_part_last split_slash_not_Nil split_slash_append
        split_slash_no_slash spec_final_segment_append)
next
  case False
  then show ?thesis
    by (simp add: split_slash_no_slash last_part_def spec_final_segment_no_slash)
qed

text \<open>
  Claim C5. For a reference with a slash, the kinds character, object and environment
  resolve to the user directories \<^verbatim>\<open>/data/user/characters/\<close>, \<^verbatim>\<open>/data/user/objects/\<close>
  and \<^verbatim>\<open>/data/user/environments/\<close> followed by the final path segment, and every
  other kind resolves to null. For a reference without a slash, character resolves to
  \<^verbatim>\<open>/data/system/dummies/gltf/<name>.glb\<close>, object to \<^verbatim>\<open>/data/system/objects/<name>.glb\<close>,
  and every other kind (environment and light among them) resolves to null.
\<close>

theorem resolver_directory_table:
  "(CHR ''/'' \<in> set m \<longrightarrow>
      getFilepathForLoadable \<lparr>type = ''character'', model = Some m\<rparr>
        = Inr (Some (''/data/user/characters/'' @ spec_final_segment m))
    \<and> getFilepathForLoadable \<lparr>type = ''object'', model = Some m\<rparr>
        = Inr (Some (''/data/user/objects/'' @ spec_final_segment m))
    \<and> getFilepathForLoadable \<lparr>type = ''environment'', model = Some m\<rparr>
        = Inr (Some (''/data/user/environments/'' @ spec_final_segment m))
    \<and> (t \<noteq> ''character'' \<and> t \<noteq> ''object'' \<and> t \<noteq> ''environment'' \<longrightarrow>
          getFilepathForLoadable \<lparr>type = t, model = Some m\<rparr> = Inr None))
   \<and> (CHR ''/'' \<notin> set m \<longrightarrow>
      getFilepathForLoadable \<lparr>type = ''character'', model = Some m\<rparr>
        = Inr (Some (''/data/system/dummies/gltf/'' @ m @ ''.glb''))
    \<and> getFilepathForLoadable \<lparr>type = ''object'', model = Some m\<rparr>
        = Inr (Some (''/data/system/objects/'' @ m @ ''.glb''))
    \<and> getFilepathForLoadable \<lparr>type = ''environment'', model = Some m\<rparr> = Inr None
    \<and> getFilepathForLoadable \<lparr>type = ''light'', model = Some m\<rparr> = Inr None
    \<and> (t \<noteq> ''character'' \<and> t \<noteq> ''object'' \<longrightarrow>
          getFilepathForLoadable \<lparr>type = t, model = Some m\<rparr> = Inr None))"
  by (simp add: getFilepathForLoadable_def isUserModel_def last_part_split_slash)

theorem resolver_directory_table_witness:
  "getFilepathForLoadable \<lparr>type = ''character'', model = Some ''ORC''\<rparr>
     = Inr (Some ''/data/system/dummies/gltf/ORC.glb'')
   \<and> getFilepathForLoadable \<lparr>type = ''object'', model = Some ''assets/chairs/oak.glb''\<rparr>
     = Inr (Some ''/data/user/objects/oak.glb'')
   \<and> getFilepathForLoadable \<lparr>type = ''environment'', model = Some ''sets/room.glb''\<rparr>
     = Inr (Some ''/data/user/environments/room.glb'')
   \<and> getFilepathForLoadable \<lparr>type = ''environment'', model = Some ''room''\<rparr> = Inr None
   \<and> getFilepathForLoadable \<lparr>type = ''camera'', model = Some ''a/b''\<rparr> = Inr None"
  using resolver_directory_table [of "''ORC''" "''light''"]
    resolver_directory_table [of "''assets/chairs/oak.glb''" "''camera''"]
    resolver_directory_table [of "''sets/room.glb''" "''camera''"]
    resolver_directory_table [of "''room''" "''light''"]
    resolver_directory_table [of "''a/b''" "''camera''"]
  by (simp add: spec_final_segment_def)

section \<open>The reducer, one event at a time\<close>

lemma reducer_frame:
  "reducer state a = Inr state' \<Longrightarrow> payload_key a \<noteq> Some k \<Longrightarrow> map_of state' k = map_of state k"
  by (cases a) (auto simp: update_conv' loading_def split: option.splits)

lemma reducer_throws:
  "reducer state a = Inl x \<longleftrightarrow> (\<exists>i. a = LOAD i \<and> map_of state (key_of i) = None)"
  by (cases a; cases x) (auto simp: loading_def split: option.splits)

lemma reducer_distinct:
  "reducer state a = Inr state' \<Longrightarrow> distinct (map fst state) \<Longrightarrow> distinct (map fst state')"
  by (cases a) (auto simp: distinct_update loading_def split: option.splits)

lemma reducer_asked:
  "reducer state a = Inr state' \<Longrightarrow> asked state k \<Longrightarrow> asked state' k"
  by (cases a) (auto simp: asked_def update_conv' loading_def blank_def split: option.splits if_splits)

lemma pending_existing:
  "map_of state (key_of i) \<noteq> None \<Longrightarrow> reducer state (PENDING i) = Inr state"
  by (auto split: option.splits)

lemma status_at_cong: "map_of s1 k = map_of s2 k \<Longrightarrow> status_at s1 k = status_at s2 k"
  by (simp add: status_at_def)

text \<open>
  Claim C7. A PENDING event for a key without an entry creates an entry whose status
  is NotAsked (and nothing else is set in it); for a key that has an entry, whatever
  the entry is, the whole state is returned unchanged. Hence a repeated PENDING
  changes nothing.
\<close>

theorem request_idempotent:
  "(map_of state (key_of i) = None \<longrightarrow>
      (\<exists>state'. reducer state (PENDING i) = Inr state'
         \<and> map_of state' (key_of i) = Some (blank\<lparr>status := Some NotAsked\<rparr>)
         \<and> status_at state' (key_of i) = Some NotAsked
         \<and> reducer state' (PENDING i) = Inr state'))
   \<and> (map_of state (key_of i) = Some e \<longrightarrow> reducer state (PENDING i) = Inr state)"
  by (simp add: update_conv' status_at_def blank_def)

theorem request_idempotent_witness:
  "map_of ([] :: (nat, nat) attachments) (key_of (Some ''/data/system/objects/chair.glb'')) = None
   \<and> reducer ([] :: (nat, nat) attachments) (PENDING (Some ''/data/system/objects/chair.glb''))
       = Inr [(''/data/system/objects/chair.glb'', blank\<lparr>status := Some NotAsked\<rparr>)]
   \<and> map_of [(''/data/system/objects/chair.glb'',
               blank\<lparr>status := Some Success, value' := Some (3::nat)\<rparr> :: (nat, nat) entry)]
        (key_of (Some ''/data/system/objects/chair.glb''))
       = Some (blank\<lparr>status := Some Success, value' := Some 3\<rparr>)
   \<and> reducer [(''/data/system/objects/chair.glb'',
                blank\<lparr>status := Some Success, value' := Some (3::nat)\<rparr> :: (nat, nat) entry)]
        (PENDING (Some ''/data/system/objects/chair.glb''))
       = Inr [(''/data/system/objects/chair.glb'', blank\<lparr>status := Some Success, value' := Some 3\<rparr>)]"
  using request_idempotent [of "[] :: (nat, nat) attachments" "Some ''/data/system/objects/chair.glb''"]
    request_idempotent [of "[(''/data/system/objects/chair.glb'',
        blank\<lparr>status := Some Success, value' := Some (3::nat)\<rparr> :: (nat, nat) entry)]"
      "Some ''/data/system/objects/chair.glb''" "blank\<lparr>status := Some Success, value' := Some 3\<rparr>"]
  by (simp add: key_of_def)

text \<open>
  Claim C10. Frame property of the reducer. When the reducer returns a state, every
  key other than the one in the action's payload has the entry it had, and is a key
  of the new state exactly when it was one of the old; the reducer throws only for a
  LOAD whose key has no entry; an action of an unrecognised type returns the state
  as it is.
\<close>

theorem reducer_frame_property:
  "(\<forall>state'. reducer state a = Inr state' \<longrightarrow>
       (\<forall>k. payload_key a \<noteq> Some k \<longrightarrow> map_of state' k = map_of state k)
       \<and> (\<forall>k. payload_key a \<noteq> Some k \<longrightarrow> (k \<in> set (map fst state') \<longleftrightarrow> k \<in> set (map fst state))))
   \<and> ((\<exists>x. reducer state a = Inl x) \<longleftrightarrow> (\<exists>i. a = LOAD i \<and> map_of state (key_of i) = None))
   \<and> reducer state (OTHER t) = Inr state"
proof -
  have "map_of state' k = map_of state k"
    if "reducer state a = Inr state'" "payload_key a \<noteq> Some k" for state' k
    using that by (rule reducer_frame)
  moreover have "k \<in> set (map fst state') \<longleftrightarrow> k \<in> set (map fst state)"
    if "reducer state a = Inr state'" "payload_key a \<noteq> Some k" for state' k
  proof -
    have "map_of state' k = map_of state k" using that by (rule reducer_frame)
    then have "(map_of state' k = None) = (map_of state k = None)" by simp
    then show ?thesis by (simp add: map_of_eq_None_iff)
  qed
  moreover have "(\<exists>x. reducer state a = Inl x) \<longleftrightarrow> (\<exists>i. a = LOAD i \<and> map_of state (key_of i) = None)"
    by (simp add: reducer_throws)
  ultimately show ?thesis by simp
qed

theorem reducer_frame_property_witness:
  "reducer [(''a'', blank\<lparr>status := Some Loading\<rparr>), (''b'', blank\<lparr>status := Some NotAsked\<rparr>)]
       (SUCCESS (Some ''a'') (5::nat))
     = Inr [(''a'', blank\<lparr>status := Some Success, value' := Some 5\<rparr>),
            (''b'', blank\<lparr>status := Some NotAsked\<rparr> :: (nat, nat) entry)]
   \<and> payload_key (SUCCESS (Some ''a'') (5::nat) :: (nat, nat) action) \<noteq> Some ''b''
   \<and> map_of [(''a'', blank\<lparr>status := Some Success, value' := Some (5::nat)\<rparr>),
            (''b'', blank\<lparr>status := Some NotAsked\<rparr> :: (nat, nat) entry)] ''b''
     = map_of [(''a'', blank\<lparr>status := Some Loading\<rparr>), (''b'', blank\<lparr>status := Some NotAsked\<rparr>)] ''b''
   \<and> reducer ([] :: (nat, nat) attachments) (LOAD (Some ''a'')) = Inl TypeError"
  using reducer_frame_property [of
      "[(''a'', blank\<lparr>status := Some Loading\<rparr>), (''b'', blank\<lparr>status := Some NotAsked\<rparr> :: (nat, nat) entry)]"
      "SUCCESS (Some ''a'') (5::nat)" "''x''"]
    reducer_frame_property [of "[] :: (nat, nat) attachments" "LOAD (Some ''a'')" "''x''"]
  by (simp add: key_of_def)

text \<open>
  Claim C3 says that a PROGRESS event applied to a Loading entry leaves its status
  Loading and changes only the progress. The PROGRESS case builds the new entry from
  the spread of the array \<^verbatim>\<open>[action.payload.id]\<close>, not from the old entry: the stored
  entry has the property \<^verbatim>\<open>0\<close> and the progress, and no status. The first conjunct
  evaluates the reducer on a Loading entry; the second holds for every state.
\<close>

theorem progress_drops_status:
  "reducer [(''/data/system/objects/chair.glb'', blank\<lparr>status := Some Loading, progress := None\<rparr>)]
      (PROGRESS (Some ''/data/system/objects/chair.glb'') 1 2)
     = Inr [(''/data/system/objects/chair.glb'',
             \<lparr>status = None,
              progress = Some \<lparr>loaded_bytes = 1, total_bytes = 2, percent = Num 0\<rparr>,
              value' = None, error = None,
              elem0 = Some (Some ''/data/system/objects/chair.glb'')\<rparr>)]
   \<and> (\<exists>state'. reducer state (PROGRESS i l t) = Inr state' \<and> status_at state' (key_of i) = None)"
  by (simp add: key_of_def blank_def percent_of_def status_at_def update_conv')

text \<open>
  Claim C4. For a PROGRESS event with integers \<open>0 \<le> loaded \<le> total\<close> and
  \<open>0 < total\<close>, the reducer stores the two counts and the percent
  \<open>floor (loaded / total) * 100\<close>; the percent is 0 when \<open>loaded < total\<close>, 100 when
  \<open>loaded = total\<close>, and it is 100 only when \<open>loaded = total\<close>.
\<close>

theorem progress_percent:
  assumes "0 \<le> l" and "l \<le> t" and "0 < t"
  shows "\<exists>state' p. reducer state (PROGRESS i l t) = Inr state'
           \<and> progress_at state' (key_of i) = Some p
           \<and> loaded_bytes p = l \<and> total_bytes p = t
           \<and> percent p = Num ((l div t) * 100)
           \<and> (l < t \<longrightarrow> percent p = Num 0)
           \<and> (l = t \<longrightarrow> percent p = Num 100)
           \<and> (percent p = Num 100 \<longleftrightarrow> l = t)"
proof -
  have "l div t = (if l = t then 1 else 0)"
    using assms by (simp add: div_pos_pos_trivial)
  with assms show ?thesis
    by (simp add: progress_at_def update_conv' percent_of_def)
qed

theorem progress_percent_witness:
  "(0::int) \<le> 512 \<and> (512::int) \<le> 1024 \<and> (0::int) < 1024
   \<and> reducer ([] :: (nat, nat) attachments) (PROGRESS (Some ''a'') 512 1024)
       = Inr [(''a'', blank\<lparr>elem0 := Some (Some ''a''),
                 progress := Some \<lparr>loaded_bytes = 512, total_bytes = 1024, percent = Num 0\<rparr>\<rparr>)]
   \<and> reducer ([] :: (nat, nat) attachments) (PROGRESS (Some ''a'') 1024 1024)
       = Inr [(''a'', blank\<lparr>elem0 := Some (Some ''a''),
                 progress := Some \<lparr>loaded_bytes = 1024, total_bytes = 1024, percent = Num 100\<rparr>\<rparr>)]"
  using progress_percent [of 512 1024 "[] :: (nat, nat) attachments" "Some ''a''"]
    progress_percent [of 1024 1024 "[] :: (nat, nat) attachments" "Some ''a''"]
  by (simp add: key_of_def percent_of_def)

section \<open>The driving loop\<close>

lemma count_list_distinct: "distinct xs \<Longrightarrow> count_list xs k \<le> Suc 0"
  by (induction xs) (auto simp: count_list_0_iff)

lemma inv_dispatch: "hook_inv h \<Longrightarrow> hook_inv (dispatch a h)"
  by (auto simp: hook_inv_def dispatch_def list_all_iff split: option.splits sum.splits
      dest: reducer_distinct reducer_asked)

lemma calls_dispatch: "loader_calls (dispatch a h) = loader_calls h"
  by (simp add: dispatch_def split: option.splits sum.splits)

lemma dispatch_frame:
  "payload_key a \<noteq> Some k \<Longrightarrow> map_of (attachments (dispatch a h)) k = map_of (attachments h) k"
  by (auto simp: dispatch_def dest: reducer_frame split: option.splits sum.splits)

lemma inv_thrown: "hook_inv h \<Longrightarrow> hook_inv (h\<lparr>thrown := x\<rparr>)"
  by (simp add: hook_inv_def)

lemma inv_request_each: "hook_inv h \<Longrightarrow> hook_inv (request_each objs h)"
proof (induction objs arbitrary: h)
  case Nil
  then show ?case by simp
next
  case (Cons obj objs)
  then show ?case
    by (simp add: inv_dispatch inv_thrown split: option.splits sum.splits)
qed

text \<open>
  The loop of the second callback keeps the invariant when it is given distinct keys
  of the cache that were not handed to the loader before.
\<close>

lemma inv_load_each:
  "hook_inv h \<Longrightarrow> distinct ks \<Longrightarrow> set ks \<inter> set (loader_calls h) = {}
    \<Longrightarrow> set ks \<subseteq> fst ` set (attachments h) \<Longrightarrow> hook_inv (load_each ks h)"
proof (induction ks arbitrary: h)
  case Nil
  then show ?case by simp
next
  case (Cons k ks)
  show ?case
  proof (cases "thrown h")
    case (Some x)
    with Cons.prems show ?thesis by simp
  next
    case None
    from Cons.prems(4) obtain e where e: "map_of (attachments h) k = Some e"
      by (cases "map_of (attachments h) k") (auto simp: map_of_eq_None_iff)
    let ?st = "AList.update k (blank\<lparr>status := Some Loading, progress := None\<rparr>) (attachments h)"
    let ?h = "h\<lparr>loader_calls := loader_calls h @ [k], attachments := ?st\<rparr>"
    have d: "dispatch (LOAD (Some k)) (h\<lparr>loader_calls := loader_calls h @ [k]\<rparr>) = ?h"
      using None e by (simp add: dispatch_def key_of_def loading_def)
    have "reducer (attachments h) (LOAD (Some k)) = Inr ?st"
      using e by (simp add: key_of_def loading_def)
    then have pres: "\<And>k'. asked (attachments h) k' \<Longrightarrow> asked ?st k'"
      by (rule reducer_asked)
    have "asked ?st k"
      by (simp add: asked_def update_conv' blank_def)
    with Cons.prems pres have "hook_inv ?h"
      by (auto simp: hook_inv_def distinct_update list_all_iff)
    moreover have "distinct ks" "set ks \<inter> set (loader_calls ?h) = {}"
      "set ks \<subseteq> fst ` set (attachments ?h)"
      using Cons.prems by (auto simp: dom_update)
    ultimately have "hook_inv (load_each ks ?h)"
      by (rule Cons.IH)
    with None d show ?thesis by simp
  qed
qed

lemma not_asked_keys_props:
  assumes "hook_inv h"
  shows "distinct (not_asked_keys (attachments h))"
    and "set (not_asked_keys (attachments h)) \<inter> set (loader_calls h) = {}"
    and "set (not_asked_keys (attachments h)) \<subseteq> fst ` set (attachments h)"
proof -
  from assms have d: "distinct (map fst (attachments h))" by (simp add: hook_inv_def)
  then show "distinct (not_asked_keys (attachments h))"
    unfolding not_asked_keys_def by (rule distinct_map_filter)
  show "set (not_asked_keys (attachments h)) \<subseteq> fst ` set (attachments h)"
    by (auto simp: not_asked_keys_def)
  have "\<And>k v. (k, v) \<in> set (attachments h) \<Longrightarrow> status v = Some NotAsked \<Longrightarrow> \<not> asked (attachments h) k"
    using d by (auto simp: asked_def)
  with assms show "set (not_asked_keys (attachments h)) \<inter> set (loader_calls h) = {}"
    by (fastforce simp: not_asked_keys_def hook_inv_def list_all_iff)
qed

lemma inv_load_effect: "hook_inv h \<Longrightarrow> hook_inv (load_effect h)"
  unfolding load_effect_def
  by (rule inv_load_each) (simp_all add: not_asked_keys_props)

lemma inv_step: "hook_inv h \<Longrightarrow> hook_inv (step h ev)"
  by (cases ev) (simp_all add: inv_dispatch inv_load_effect request_effect_def inv_request_each)

lemma inv_foldl: "hook_inv h \<Longrightarrow> hook_inv (foldl step h evs)"
  by (induction evs arbitrary: h) (simp_all add: inv_step)

lemma inv_init: "hook_inv init"
  by (simp add: hook_inv_def init_def)

text \<open>
  Claim C1. Starting from the empty cache, after any sequence of events (changes of
  the scene, runs of the begin-load callback, and dispatches of any action, PENDING
  and LOAD among them), every key occurs at most once among the keys handed to the
  loader. A LOAD dispatch by itself, whatever the entry's status, calls the loader
  not at all: the loader is called only for entries found in NotAsked.
\<close>

theorem loader_called_at_most_once:
  "count_list (loader_calls (run init evs)) k \<le> 1
   \<and> loader_calls (step h (Dispatch (LOAD i))) = loader_calls h"
proof -
  have "hook_inv (run init evs)"
    unfolding run_def by (rule inv_foldl) (rule inv_init)
  then have "distinct (loader_calls (run init evs))"
    by (simp add: hook_inv_def)
  then have "count_list (loader_calls (run init evs)) k \<le> Suc 0"
    by (rule count_list_distinct)
  then show ?thesis by (simp add: calls_dispatch)
qed

theorem loader_called_at_most_once_witness:
  "loader_calls (run (init :: (nat, nat) hook)
      [SceneChanged [(''1'', \<lparr>type = ''character'', model = Some ''ORC'', loaded = None\<rparr>)]
         \<lparr>environment = \<lparr>file' = None\<rparr>\<rparr>,
       AttachmentsChanged,
       Dispatch (LOAD (Some ''/data/system/dummies/gltf/ORC.glb'')),
       SceneChanged [(''1'', \<lparr>type = ''character'', model = Some ''ORC'', loaded = None\<rparr>)]
         \<lparr>environment = \<lparr>file' = None\<rparr>\<rparr>,
       AttachmentsChanged])
     = [''/data/system/dummies/gltf/ORC.glb'']
   \<and> count_list (loader_calls (run (init :: (nat, nat) hook)
      [SceneChanged [(''1'', \<lparr>type = ''character'', model = Some ''ORC'', loaded = None\<rparr>)]
         \<lparr>environment = \<lparr>file' = None\<rparr>\<rparr>,
       AttachmentsChanged,
       Dispatch (LOAD (Some ''/data/system/dummies/gltf/ORC.glb'')),
       SceneChanged [(''1'', \<lparr>type = ''character'', model = Some ''ORC'', loaded = None\<rparr>)]
         \<lparr>environment = \<lparr>file' = None\<rparr>\<rparr>,
       AttachmentsChanged])) ''/data/system/dummies/gltf/ORC.glb'' \<le> 1"
  using loader_called_at_most_once [where ?'a = nat and ?'b = nat
      and evs = "[SceneChanged [(''1'', \<lparr>type = ''character'', model = Some ''ORC'', loaded = None\<rparr>)]
         \<lparr>environment = \<lparr>file' = None\<rparr>\<rparr>,
       AttachmentsChanged,
       Dispatch (LOAD (Some ''/data/system/dummies/gltf/ORC.glb'')),
       SceneChanged [(''1'', \<lparr>type = ''character'', model = Some ''ORC'', loaded = None\<rparr>)]
         \<lparr>environment = \<lparr>file' = None\<rparr>\<rparr>,
       AttachmentsChanged]" and k = "''/data/system/dummies/gltf/ORC.glb''"]
  by (simp add: getFilepathForLoadable_def isUserModel_def run_def init_def request_effect_def
      loadables_def truthy_def dispatch_def key_of_def load_effect_def not_asked_keys_def
      loading_def blank_def)

lemma load_each_frame:
  "k \<notin> set ks \<Longrightarrow> map_of (attachments (load_each ks h)) k = map_of (attachments h) k"
proof (induction ks arbitrary: h)
  case Nil
  then show ?case by simp
next
  case (Cons k' ks)
  have "map_of (attachments (dispatch (LOAD (Some k')) (h\<lparr>loader_calls := loader_calls h @ [k']\<rparr>))) k
        = map_of (attachments h) k"
    using Cons.prems
    by (auto simp: dispatch_def key_of_def update_conv' split: option.splits sum.splits)
  with Cons show ?case by (simp split: option.splits)
qed

lemma not_asked_keys_iff:
  "distinct (map fst state) \<Longrightarrow>
     k \<in> set (not_asked_keys state) \<longleftrightarrow> status_at state k = Some NotAsked"
proof (induction state)
  case Nil
  show ?case by (simp add: not_asked_keys_def status_at_def)
next
  case (Cons kv state)
  then have "k \<in> set (not_asked_keys state) \<longleftrightarrow> status_at state k = Some NotAsked"
    by simp
  moreover have "fst kv \<notin> set (not_asked_keys state)"
    using Cons.prems by (auto simp: not_asked_keys_def)
  ultimately show ?case
    by (cases kv) (auto simp: not_asked_keys_def status_at_def)
qed

lemma load_effect_frame:
  assumes "distinct (map fst (attachments h))"
    and "status_at (attachments h) k \<noteq> Some NotAsked"
  shows "map_of (attachments (load_effect h)) k = map_of (attachments h) k"
  unfolding load_effect_def
  using assms by (intro load_each_frame) (simp add: not_asked_keys_iff)

text \<open>
  Claim C2 says that no event changes the status of an entry that is Success or
  Error. The reducer's SUCCESS and ERROR cases write the entry whatever it was: an
  ERROR event after a Success leaves the status Error.
\<close>

theorem terminal_status_counterexample:
  "status_at [(''k'', blank\<lparr>status := Some Success, value' := Some (0::nat)\<rparr>)] ''k'' = Some Success
   \<and> reducer [(''k'', blank\<lparr>status := Some Success, value' := Some (0::nat)\<rparr>)] (ERROR (Some ''k'') (1::nat))
       = Inr [(''k'', blank\<lparr>status := Some Error, error := Some 1\<rparr>)]
   \<and> status_at [(''k'', blank\<lparr>status := Some Error, error := Some (1::nat)\<rparr>) :: string \<times> (nat, nat) entry] ''k''
       = Some Error"
  by (simp add: status_at_def key_of_def blank_def)

text \<open>
  Claim C2, amended. Once the entry of a key has status Success or Error, its status
  is unchanged by a PENDING event for any key, by an event of unrecognised type, by
  any event that carries another key, and by the two callbacks of the driving loop
  (which dispatch PENDING, and LOAD for NotAsked entries only). A SUCCESS or ERROR
  event for the key itself sets the status to Success or Error.
\<close>

theorem terminal_status_preserved:
  assumes "distinct (map fst state)"
    and "status_at state k = Some Success \<or> status_at state k = Some Error"
  shows "status_at (attachments (dispatch (PENDING i) \<lparr>attachments = state, loader_calls = cs, thrown = None\<rparr>)) k
              = status_at state k
       \<and> status_at (attachments (dispatch (OTHER t) \<lparr>attachments = state, loader_calls = cs, thrown = None\<rparr>)) k
              = status_at state k
       \<and> (payload_key a \<noteq> Some k \<longrightarrow>
            status_at (attachments (dispatch a \<lparr>attachments = state, loader_calls = cs, thrown = None\<rparr>)) k
              = status_at state k)
       \<and> status_at (attachments (load_effect \<lparr>attachments = state, loader_calls = cs, thrown = None\<rparr>)) k
              = status_at state k
       \<and> status_at (attachments (request_effect sceneObjects w \<lparr>attachments = state, loader_calls = cs, thrown = None\<rparr>)) k
              = status_at state k
       \<and> (\<exists>state'. reducer state (SUCCESS (Some k) v) = Inr state' \<and> status_at state' k = Some Success)
       \<and> (\<exists>state'. reducer state (ERROR (Some k) x) = Inr state' \<and> status_at state' k = Some Error)"
proof -
  let ?h = "\<lparr>attachments = state, loader_calls = cs, thrown = None\<rparr> :: ('a, 'b) hook"
  have pend: "status_at (attachments (dispatch (PENDING j) h)) k = status_at state k"
    if eq: "status_at (attachments h) k = status_at state k" for j and h :: "('a, 'b) hook"
  proof (cases "key_of j = k")
    case True
    with eq assms(2) have "map_of (attachments h) (key_of j) \<noteq> None"
      by (auto simp: status_at_def split: option.splits)
    then have "reducer (attachments h) (PENDING j) = Inr (attachments h)"
      by (rule pending_existing)
    with eq show ?thesis by (simp add: dispatch_def split: option.splits)
  next
    case False
    then have "map_of (attachments (dispatch (PENDING j) h)) k = map_of (attachments h) k"
      by (intro dispatch_frame) simp
    with eq show ?thesis by (simp add: status_at_def)
  qed
  have req: "status_at (attachments (request_each objs h)) k = status_at state k"
    if "status_at (attachments h) k = status_at state k" for objs and h :: "('a, 'b) hook"
    using that
  proof (induction objs arbitrary: h)
    case Nil
    then show ?case by simp
  next
    case (Cons obj objs)
    then show ?case by (simp add: pend split: option.splits sum.splits)
  qed
  have c1: "status_at (attachments (dispatch (PENDING i) ?h)) k = status_at state k"
    by (rule pend) simp
  have c2: "status_at (attachments (dispatch (OTHER t) ?h)) k = status_at state k"
    by (simp add: dispatch_def)
  have c3: "payload_key a \<noteq> Some k \<longrightarrow>
      status_at (attachments (dispatch a ?h)) k = status_at state k"
    using dispatch_frame [of a k ?h] by (auto intro: status_at_cong)
  have "status_at (attachments ?h) k \<noteq> Some NotAsked"
    using assms(2) by auto
  then have "map_of (attachments (load_effect ?h)) k = map_of (attachments ?h) k"
    using assms(1) by (intro load_effect_frame) simp_all
  then have c4: "status_at (attachments (load_effect ?h)) k = status_at state k"
    by (simp add: status_at_def)
  have c5: "status_at (attachments (request_effect sceneObjects w ?h)) k = status_at state k"
    unfolding request_effect_def by (rule req) simp
  have c6: "\<exists>state'. reducer state (SUCCESS (Some k) v) = Inr state' \<and> status_at state' k = Some Success"
    by (simp add: status_at_def update_conv' key_of_def blank_def)
  have c7: "\<exists>state'. reducer state (ERROR (Some k) x) = Inr state' \<and> status_at state' k = Some Error"
    by (simp add: status_at_def update_conv' key_of_def blank_def)
  from c1 c2 c3 c4 c5 c6 c7 show ?thesis by blast
qed

theorem terminal_status_preserved_witness:
  "distinct (map fst [(''a'', blank\<lparr>status := Some Success, value' := Some (7::nat)\<rparr>),
                      (''b'', blank\<lparr>status := Some NotAsked\<rparr> :: (nat, nat) entry)])
   \<and> status_at [(''a'', blank\<lparr>status := Some Success, value' := Some (7::nat)\<rparr>),
                 (''b'', blank\<lparr>status := Some NotAsked\<rparr> :: (nat, nat) entry)] ''a'' = Some Success
   \<and> status_at (attachments (dispatch (PENDING (Some ''a''))
        \<lparr>attachments = [(''a'', blank\<lparr>status := Some Success, value' := Some (7::nat)\<rparr>),
                         (''b'', blank\<lparr>status := Some NotAsked\<rparr> :: (nat, nat) entry)],
         loader_calls = [], thrown = None\<rparr>)) ''a'' = Some Success
   \<and> status_at (attachments (dispatch (LOAD (Some ''b''))
        \<lparr>attachments = [(''a'', blank\<lparr>status := Some Success, value' := Some (7::nat)\<rparr>),
                         (''b'', blank\<lparr>status := Some NotAsked\<rparr> :: (nat, nat) entry)],
         loader_calls = [], thrown = None\<rparr>)) ''a'' = Some Success
   \<and> status_at (attachments (load_effect
        \<lparr>attachments = [(''a'', blank\<lparr>status := Some Success, value' := Some (7::nat)\<rparr>),
                         (''b'', blank\<lparr>status := Some NotAsked\<rparr> :: (nat, nat) entry)],
         loader_calls = [], thrown = None\<rparr>)) ''a'' = Some Success"
  using terminal_status_preserved [of
      "[(''a'', blank\<lparr>status := Some Success, value' := Some (7::nat)\<rparr>),
        (''b'', blank\<lparr>status := Some NotAsked\<rparr> :: (nat, nat) entry)]"
      "''a''" "Some ''a''" "[]" "''x''" "LOAD (Some ''b'')" "[]"
      "\<lparr>environment = \<lparr>file' = None\<rparr>\<rparr>" 7 7]
  by (simp add: status_at_def blank_def key_of_def)

section \<open>What is requested\<close>






text \<open>
  The read path has no guard of its own for the scene objects it is given:
  \<^verbatim>\<open>getModelData\<close> throws exactly when the object's model reference is null.
\<close>

lemma getModelData_throws:
  "(\<exists>x. getModelData atts d = Inl x) \<longleftrightarrow> model d = None"
  by (auto simp: getModelData_def getFilepathForLoadable_def Let_def split: option.splits sum.splits)




text \<open>
  Claim C8 says that an environment descriptor is requested whenever the environment
  file is not null. The source tests the file for truthiness: the empty string is not
  null, and no descriptor is pushed for it.
\<close>

theorem loadables_empty_file_counterexample:
  "file' (environment \<lparr>environment = \<lparr>file' = Some ''''\<rparr>\<rparr>) \<noteq> None
   \<and> loadables [] \<lparr>environment = \<lparr>file' = Some ''''\<rparr>\<rparr> = []"
  by (simp add: loadables_def truthy_def)

text \<open>
  Claim C8, amended. The descriptors for which a load is requested are exactly the
  scene objects that have a model reference, whose loaded flag is not true, and that
  are not the box (type object, model box), and one environment descriptor when the
  environment file is neither null nor the empty string. Their number is the number
  of such scene objects, plus one for the environment descriptor.
\<close>

theorem loadables_exact:
  "(obj \<in> set (loadables sceneObjects w) \<longleftrightarrow>
      (obj \<in> snd ` set sceneObjects \<and> model obj \<noteq> None \<and> loaded obj \<noteq> Some True
         \<and> \<not> (type obj = ''object'' \<and> model obj = Some ''box''))
      \<or> (\<exists>f. file' (environment w) = Some f \<and> f \<noteq> [] \<and> obj = environment_descriptor f))
   \<and> length (loadables sceneObjects w)
       = length (filter (\<lambda>obj. model obj \<noteq> None \<and> loaded obj \<noteq> Some True
                               \<and> \<not> (type obj = ''object'' \<and> model obj = Some ''box''))
                   (map snd sceneObjects))
         + (if file' (environment w) = None \<or> file' (environment w) = Some [] then 0 else 1)"
proof -
  have "filter (\<lambda>obj. \<not> (type obj = ''object'' \<and> model obj = Some ''box''))
          (filter (\<lambda>obj. loaded obj \<noteq> Some True)
             (filter (\<lambda>obj. model obj \<noteq> None) (map snd sceneObjects)))
        = filter (\<lambda>obj. model obj \<noteq> None \<and> loaded obj \<noteq> Some True
                               \<and> \<not> (type obj = ''object'' \<and> model obj = Some ''box''))
                   (map snd sceneObjects)"
    by (simp add: conj_ac)
  then show ?thesis
    unfolding loadables_def
    by (cases "file' (environment w)") (auto simp: truthy_def environment_descriptor_def)
qed

theorem loadables_exact_witness:
  "loadables [(''1'', \<lparr>type = ''character'', model = Some ''ORC'', loaded = None\<rparr>),
              (''2'', \<lparr>type = ''object'', model = Some ''box'', loaded = None\<rparr>),
              (''3'', \<lparr>type = ''light'', model = None, loaded = None\<rparr>),
              (''4'', \<lparr>type = ''object'', model = Some ''chair'', loaded = Some True\<rparr>)]
             \<lparr>environment = \<lparr>file' = Some ''sets/room.glb''\<rparr>\<rparr>
     = [\<lparr>type = ''character'', model = Some ''ORC'', loaded = None\<rparr>,
        environment_descriptor ''sets/room.glb'']
   \<and> length (loadables [(''1'', \<lparr>type = ''character'', model = Some ''ORC'', loaded = None\<rparr>),
              (''2'', \<lparr>type = ''object'', model = Some ''box'', loaded = None\<rparr>),
              (''3'', \<lparr>type = ''light'', model = None, loaded = None\<rparr>),
              (''4'', \<lparr>type = ''object'', model = Some ''chair'', loaded = Some True\<rparr>)]
             \<lparr>environment = \<lparr>file' = Some ''sets/room.glb''\<rparr>\<rparr>) = 2"
  using loadables_exact [of "\<lparr>type = ''character'', model = Some ''ORC'', loaded = None\<rparr>"
      "[(''1'', \<lparr>type = ''character'', model = Some ''ORC'', loaded = None\<rparr>),
              (''2'', \<lparr>type = ''object'', model = Some ''box'', loaded = None\<rparr>),
              (''3'', \<lparr>type = ''light'', model = None, loaded = None\<rparr>),
              (''4'', \<lparr>type = ''object'', model = Some ''chair'', loaded = Some True\<rparr>)]"
      "\<lparr>environment = \<lparr>file' = Some ''sets/room.glb''\<rparr>\<rparr>"]
  by (simp add: loadables_def truthy_def environment_descriptor_def)

text \<open>
  Claim C9 says that nothing is loaded for a descriptor that resolves to null. The
  first callback dispatches PENDING with the resolver's result as it is: for an
  environment file without a slash the id is null, the cache gets an entry under the
  key \<^verbatim>\<open>"null"\<close>, and the second callback hands that key to the loader.
\<close>

theorem null_key_is_loaded:
  "getFilepathForLoadable \<lparr>type = ''environment'', model = Some ''room.glb''\<rparr> = Inr None
   \<and> run (init :: (nat, nat) hook)
        [SceneChanged [] \<lparr>environment = \<lparr>file' = Some ''room.glb''\<rparr>\<rparr>, AttachmentsChanged]
      = \<lparr>attachments = [(''null'', blank\<lparr>status := Some Loading\<rparr>)],
         loader_calls = [''null''], thrown = None\<rparr>"
  by (simp add: getFilepathForLoadable_def isUserModel_def run_def init_def request_effect_def
      loadables_def truthy_def dispatch_def key_of_def load_effect_def not_asked_keys_def
      loading_def blank_def)

end
